theory Spec2Isabelle
  imports Complex_Main
begin

section \<open>Python values\<close>

text \<open>
  A decoded JSON or YAML document, a message payload and the instance handed to a format
  checker are Python objects: \<open>None\<close>, booleans, integers, floats, strings, lists and
  dictionaries. A dictionary is an association list in insertion order, which is the order
  \<open>.items()\<close> iterates in; its keys are strings, as \<open>json.loads\<close> produces them. Floats are
  kept as reals: the code below only asks a float whether it is a string, a dictionary or
  zero.
\<close>

datatype py =
    PNone
  | PBool bool
  | PInt int
  | PFloat real
  | PStr string
  | PList "py list"
  | PDict "(string \<times> py) list"

text \<open>Truth value of an object, as \<open>not x\<close> and \<open>if x\<close> read it.\<close>

fun truthy :: "py \<Rightarrow> bool" where
  "truthy PNone = False"
| "truthy (PBool b) = b"
| "truthy (PInt i) = (i \<noteq> 0)"
| "truthy (PFloat r) = (r \<noteq> 0)"
| "truthy (PStr s) = (s \<noteq> [])"
| "truthy (PList xs) = (xs \<noteq> [])"
| "truthy (PDict kvs) = (kvs \<noteq> [])"

text \<open>\<open>isinstance(x, dict)\<close> and \<open>isinstance(x, str)\<close>.\<close>

fun is_dict :: "py \<Rightarrow> bool" where
  "is_dict (PDict kvs) = True"
| "is_dict _ = False"

fun is_str :: "py \<Rightarrow> bool" where
  "is_str (PStr s) = True"
| "is_str _ = False"

text \<open>\<open>d.get(k)\<close>: the value stored under \<open>k\<close>, \<open>None\<close> when the key is absent.\<close>

definition dict_get :: "(string \<times> py) list \<Rightarrow> string \<Rightarrow> py" where
  "dict_get kvs k = (case map_of kvs k of None \<Rightarrow> PNone | Some v \<Rightarrow> v)"

text \<open>\<open>k in d\<close> and \<open>d[k] = v\<close> on a dictionary kept in insertion order: an existing key keeps
  its place, a new key goes last.\<close>

definition key_in :: "'k \<Rightarrow> ('k \<times> 'v) list \<Rightarrow> bool" where
  "key_in k d = (map_of d k \<noteq> None)"

fun dict_set :: "('k \<times> 'v) list \<Rightarrow> 'k \<Rightarrow> 'v \<Rightarrow> ('k \<times> 'v) list" where
  "dict_set [] k v = [(k, v)]"
| "dict_set ((k', v') # d) k v = (if k' = k then (k, v) # d else (k', v') # dict_set d k v)"

text \<open>\<open>s.startswith(p)\<close>.\<close>

definition startswith :: "string \<Rightarrow> string \<Rightarrow> bool" where
  "startswith s p = (take (length p) s = p)"

section \<open>Regular expressions of the \<open>re\<close> module\<close>

text \<open>
  The fragment of Python's regular expressions that the two patterns of this program use.
  Without \<open>re.MULTILINE\<close>, \<open>^\<close> matches at the start of the string only, and \<open>$\<close> matches at
  the end of the string and also just before a newline that is the last character of the
  string. Repetition \<open>+\<close> and the optional group \<open>?\<close> are greedy. The matcher returns every
  way the expression can match from a state, in the order a backtracking engine tries
  them, so the first element is the match Python reports. A state is the position in the
  subject, the rest of the subject from there, and the groups captured so far.
\<close>

datatype regex =
    REps
  | RBol
  | REol
  | RChars "char list"
  | RTimes nat regex
  | RPlus "char list"
  | ROpt regex
  | RGroup nat regex
  | RCat regex regex

type_synonym mstate = "nat \<times> string \<times> (nat \<times> string) list"

definition newline :: char where
  "newline = CHR 0x0A"

fun rsize :: "regex \<Rightarrow> nat" where
  "rsize (RTimes n r) = Suc (n + rsize r)"
| "rsize (ROpt r) = Suc (rsize r)"
| "rsize (RGroup i r) = Suc (rsize r)"
| "rsize (RCat a b) = Suc (rsize a + rsize b)"
| "rsize _ = 0"

function (sequential) rmatch :: "regex \<Rightarrow> mstate \<Rightarrow> mstate list" where
  "rmatch REps st = [st]"
| "rmatch RBol (p, s, g) = (if p = 0 then [(p, s, g)] else [])"
| "rmatch REol (p, s, g) = (if s = [] \<or> s = [newline] then [(p, s, g)] else [])"
| "rmatch (RChars cs) (p, s, g) =
     (case s of [] \<Rightarrow> [] | c # r \<Rightarrow> if c \<in> set cs then [(Suc p, r, g)] else [])"
| "rmatch (RTimes 0 r) st = [st]"
| "rmatch (RTimes (Suc n) r) st = concat (map (rmatch (RTimes n r)) (rmatch r st))"
| "rmatch (RPlus cs) (p, s, g) =
     map (\<lambda>k. (p + k, drop k s, g)) (rev [1..<Suc (length (takeWhile (\<lambda>c. c \<in> set cs) s))])"
| "rmatch (ROpt r) st = rmatch r st @ [st]"
| "rmatch (RGroup i r) (p, s, g) =
     map (\<lambda>(p', s', g'). (p', s', (i, take (p' - p) s) # g')) (rmatch r (p, s, g))"
| "rmatch (RCat a b) st = concat (map (rmatch b) (rmatch a st))"
  by pat_completeness auto
termination
  by (relation "measure (\<lambda>(r, st). rsize r)") auto

fun seq :: "regex list \<Rightarrow> regex" where
  "seq [] = REps"
| "seq (r # rs) = RCat r (seq rs)"

text \<open>\<open>pattern.match(string)\<close>: the groups of the first match from position 0, or \<open>None\<close>.\<close>

definition re_match :: "regex \<Rightarrow> string \<Rightarrow> (nat \<times> string) list option" where
  "re_match r s = (case rmatch r (0, s, []) of [] \<Rightarrow> None | (p, s', g) # ms \<Rightarrow> Some g)"

section \<open>The format checker \<open>human-uuid\<close>\<close>

text \<open>The character class \<open>[0-9a-f]\<close>.\<close>

definition hexdigit :: "char list" where
  "hexdigit = ''0123456789abcdef''"

text \<open>\<open>_human_uuid_re\<close>:
  \<open>^[0-9a-f]{8}-[0-9a-f]{4}-[0-9a-f]{4}-[0-9a-f]{4}-[0-9a-f]{12}$\<close>.\<close>

definition human_uuid_re :: regex where
  "human_uuid_re = seq
     [RBol, RTimes 8 (RChars hexdigit), RChars ''-'', RTimes 4 (RChars hexdigit), RChars ''-'',
      RTimes 4 (RChars hexdigit), RChars ''-'', RTimes 4 (RChars hexdigit), RChars ''-'',
      RTimes 12 (RChars hexdigit), REol]"

definition check_human_uuid :: "py \<Rightarrow> bool" where
  "check_human_uuid inst =
     (if \<not> is_str inst then True
      else (case inst of PStr s \<Rightarrow> re_match human_uuid_re s \<noteq> None | _ \<Rightarrow> True))"

section \<open>Exceptions\<close>

text \<open>
  A call either returns (\<open>Inr\<close>) or raises (\<open>Inl\<close>). A \<open>violation\<close> is the structural
  validation engine's record of one failure: the path in the data, the constraint violated
  and a message. This program only collects such records and hands them on.
  \<^item> \<open>SchemaError_create_from v\<close> is what the inherited \<open>check_schema\<close> of the engine raises for a
    document that violates the Draft 4 meta-schema;
  \<^item> \<open>SchemaError errors\<close> is \<open>raise SchemaError(errors)\<close> of this program;
  \<^item> \<open>ValidationError None\<close> is \<open>raise ValidationError\<close>, with no argument, and
    \<open>ValidationError (Some errors)\<close> is \<open>raise ValidationError(errors)\<close>.
  The messages collected by \<open>check_schema\<close> are kept as the format string with its arguments:
  \<^item> \<open>Invalid_schema_file\<close>: "Invalid schema file: expected key 'schemas' with non-empty value";
  \<^item> \<open>Invalid_definition t\<close>: "Invalid definition for message type: 't', value must contain a
    dict of valid versions";
  \<^item> \<open>Invalid_version v t\<close>: "Invalid version 'v' for message type: 't'";
  \<^item> \<open>Schema_not_found t m\<close>: "Schema not found for 't' vm".
\<close>

datatype schema_issue =
    Invalid_schema_file
  | Invalid_definition string
  | Invalid_version string string
  | Schema_not_found string int

datatype violation = Violation (path_in_data: "py list") (constraint_violated: string) (message_text: string)

datatype exn =
    ValueError
  | AttributeError
  | KeyError
  | TypeError
  | RefResolutionError
  | SchemaError_create_from violation
  | SchemaError "schema_issue list"
  | ValidationError "violation list option"

section \<open>\<open>distutils.version.StrictVersion\<close>\<close>

text \<open>The class \<open>\d\<close> under \<open>re.ASCII\<close>, and \<open>int\<close> of a string of such digits.\<close>

definition digit :: "char list" where
  "digit = ''0123456789''"

definition int_of_digits :: "string \<Rightarrow> nat" where
  "int_of_digits ds = foldl (\<lambda>n c. 10 * n + (of_char c - 48)) 0 ds"

text \<open>\<open>StrictVersion.version_re\<close>, compiled with \<open>re.VERBOSE | re.ASCII\<close>:
  \<open>^(\d+) \. (\d+) (\. (\d+))? ([ab](\d+))?$\<close>.\<close>

definition version_re :: regex where
  "version_re = seq
     [RBol, RGroup 1 (RPlus digit), RChars ''.'', RGroup 2 (RPlus digit),
      ROpt (RGroup 3 (RCat (RChars ''.'') (RGroup 4 (RPlus digit)))),
      ROpt (RGroup 5 (RCat (RChars ''ab'') (RGroup 6 (RPlus digit)))), REol]"

text \<open>
  The constructor parses only a string that is not empty (\<open>if vstring: self.parse(vstring)\<close>),
  and \<open>parse\<close> raises \<open>ValueError\<close> when the pattern does not match; otherwise it sets the
  attribute \<open>version\<close> to the triple of major, minor and patch number, the patch number
  being 0 when group 4 is absent. \<open>int\<close> of a group that took no part in the match, which
  reads as \<open>None\<close>, raises \<open>TypeError\<close>. The result is the object's \<open>version\<close> attribute:
  \<open>None\<close> is an object that has none. The attribute \<open>prerelease\<close> is not read by this
  program and is left out.
\<close>

definition StrictVersion :: "string \<Rightarrow> exn + (nat \<times> nat \<times> nat) option" where
  "StrictVersion vstring =
     (if vstring = [] then Inr None
      else (case re_match version_re vstring of
              None \<Rightarrow> Inl ValueError
            | Some g \<Rightarrow>
                (case map_of g 1 of
                   None \<Rightarrow> Inl TypeError
                 | Some major \<Rightarrow>
                     (case map_of g 2 of
                        None \<Rightarrow> Inl TypeError
                      | Some minor \<Rightarrow>
                          Inr (Some (int_of_digits major, int_of_digits minor,
                                     (case map_of g 4 of
                                        None \<Rightarrow> 0
                                      | Some patch \<Rightarrow> int_of_digits patch)))))))"

section \<open>\<open>MessageValidator.check_schema\<close>\<close>

text \<open>
  The check threads two variables through its loops: the list \<open>errors\<close> and the dictionary
  \<open>msg_types_found\<close>, keyed by (message type, major version).
\<close>

type_synonym found_flags = "((string \<times> int) \<times> bool) list"
type_synonym scan_state = "schema_issue list \<times> found_flags"

text \<open>\<open>x.items()\<close>: only a dictionary has the method.\<close>

fun items :: "py \<Rightarrow> exn + (string \<times> py) list" where
  "items (PDict kvs) = Inr kvs"
| "items _ = Inl AttributeError"

text \<open>
  The loop over \<open>versions.items()\<close>. \<open>ValueError\<close> is caught and recorded; any other exception
  leaves the loop and the function. Reading \<open>version.version[0]\<close> of an object that was never
  parsed raises \<open>AttributeError\<close>.
\<close>

fun versions_loop :: "string \<Rightarrow> (string \<times> py) list \<Rightarrow> scan_state \<Rightarrow> exn + scan_state" where
  "versions_loop msg_type [] st = Inr st"
| "versions_loop msg_type ((msg_version, defn) # rest) (errors, found) =
     (case StrictVersion msg_version of
        Inl ValueError \<Rightarrow>
          versions_loop msg_type rest (errors @ [Invalid_version msg_version msg_type], found)
      | Inl e \<Rightarrow> Inl e
      | Inr None \<Rightarrow> Inl AttributeError
      | Inr (Some (major, minor, patch)) \<Rightarrow>
          versions_loop msg_type rest
            (errors,
             if key_in (msg_type, int major) found
             then dict_set found (msg_type, int major) True else found))"

text \<open>The loop over \<open>schema['schemas'].items()\<close>.\<close>

fun types_loop :: "(string \<times> py) list \<Rightarrow> scan_state \<Rightarrow> exn + scan_state" where
  "types_loop [] st = Inr st"
| "types_loop ((msg_type, versions) # rest) (errors, found) =
     (if \<not> is_dict versions \<or> \<not> truthy versions
      then types_loop rest (errors @ [Invalid_definition msg_type], found)
      else (case items versions of
              Inl e \<Rightarrow> Inl e
            | Inr vs \<Rightarrow>
                (case versions_loop msg_type vs (errors, found) of
                   Inl e \<Rightarrow> Inl e
                 | Inr st \<Rightarrow> types_loop rest st)))"

text \<open>The loop over \<open>msg_types_found.items()\<close>.\<close>

fun not_found_loop :: "found_flags \<Rightarrow> schema_issue list \<Rightarrow> schema_issue list" where
  "not_found_loop [] errors = errors"
| "not_found_loop (((msg_type, major_version), found) # rest) errors =
     not_found_loop rest
       (if \<not> found then errors @ [Schema_not_found msg_type major_version] else errors)"

text \<open>
  \<open>check_schema\<close>. Its first parameter is the inherited \<open>check_schema\<close> of the Draft 4
  validator, which is not part of this program: it returns \<open>None\<close> for a document that
  satisfies the Draft 4 meta-schema and the violation it raises \<open>SchemaError\<close> from
  otherwise. Its second parameter is the setting \<open>HEDWIG_MESSAGE_ROUTING\<close>, a dictionary
  whose keys are the required (message type, major version) pairs.
\<close>

definition check_schema ::
  "(py \<Rightarrow> violation option) \<Rightarrow> ((string \<times> int) \<times> 'r) list \<Rightarrow> py \<Rightarrow> exn + unit" where
  "check_schema super_check_schema routing doc =
     (case super_check_schema doc of
        Some v \<Rightarrow> Inl (SchemaError_create_from v)
      | None \<Rightarrow>
          (let msg_types_found = fold (\<lambda>k d. dict_set d k False) (map fst routing) [] in
           case (case doc of
                   PDict kvs \<Rightarrow>
                     if \<not> truthy (dict_get kvs ''schemas'')
                     then Inr ([Invalid_schema_file], msg_types_found)
                     else (case items (dict_get kvs ''schemas'') of
                             Inl e \<Rightarrow> Inl e
                           | Inr types \<Rightarrow> types_loop types ([], msg_types_found))
                 | _ \<Rightarrow> Inl AttributeError) of
             Inl e \<Rightarrow> Inl e
           | Inr (errors, found) \<Rightarrow>
               (let errors' = not_found_loop found errors in
                if errors' \<noteq> [] then Inl (SchemaError errors') else Inr ())))"

section \<open>\<open>MessageValidator.validate\<close> and \<open>FormatValidator.validate\<close>\<close>

text \<open>A message, as far as validation reads it: \<open>message.schema\<close> and \<open>message.data\<close>.\<close>

record message =
  schema :: string
  data :: py

text \<open>
  Reference resolution and structural checking belong to the validation engine. They are
  parameters: \<open>resolve ref\<close> returns the sub-schema or raises, and \<open>iter_errors inst sub\<close> is
  what \<open>list(self.iter_errors(inst, sub))\<close> gives: the sequence of violations of \<open>inst\<close>
  against \<open>sub\<close>, or the exception the engine raises while the sequence is consumed (for a
  reference inside \<open>sub\<close> that it cannot resolve, \<open>RefResolutionError\<close>). Each call the
  validator makes to them is logged, in order.
\<close>

datatype call = Resolve string | Iter_errors py py

text \<open>The property \<open>schema_root\<close>: \<open>self.schema['id']\<close>.\<close>

definition schema_root :: "py \<Rightarrow> exn + py" where
  "schema_root doc =
     (case doc of
        PDict kvs \<Rightarrow> (case map_of kvs ''id'' of None \<Rightarrow> Inl KeyError | Some v \<Rightarrow> Inr v)
      | _ \<Rightarrow> Inl TypeError)"

text \<open>
  \<open>MessageValidator.validate\<close>. Only the call of the resolver stands inside the \<open>try\<close> that
  turns \<open>RefResolutionError\<close> into \<open>ValidationError\<close>; an exception of the engine leaves the
  function as it is.
\<close>

definition validate ::
  "(string \<Rightarrow> exn + py) \<Rightarrow> (py \<Rightarrow> py \<Rightarrow> exn + violation list) \<Rightarrow> py \<Rightarrow> message
     \<Rightarrow> call list \<times> (exn + unit)" where
  "validate resolve iter_errors doc msg =
     (case schema_root doc of
        Inl e \<Rightarrow> ([], Inl e)
      | Inr (PStr root_id) \<Rightarrow>
          if \<not> startswith (schema msg) root_id then ([], Inl (ValidationError None))
          else (case resolve (schema msg) of
                  Inl RefResolutionError \<Rightarrow> ([Resolve (schema msg)], Inl (ValidationError None))
                | Inl e \<Rightarrow> ([Resolve (schema msg)], Inl e)
                | Inr sub \<Rightarrow>
                    ([Resolve (schema msg), Iter_errors (data msg) sub],
                     (case iter_errors (data msg) sub of
                        Inl e \<Rightarrow> Inl e
                      | Inr errors \<Rightarrow>
                          if errors \<noteq> [] then Inl (ValidationError (Some errors))
                          else Inr ())))
      | Inr _ \<Rightarrow> ([], Inl TypeError))"

text \<open>\<open>FormatValidator.validate\<close>: the data against the validator's own schema, the one loaded
  from \<open>format_schema.yaml\<close>.\<close>

definition format_validate ::
  "(py \<Rightarrow> py \<Rightarrow> exn + violation list) \<Rightarrow> py \<Rightarrow> py \<Rightarrow> call list \<times> (exn + unit)" where
  "format_validate iter_errors format_schema d =
     ([Iter_errors d format_schema],
      (case iter_errors d format_schema of
         Inl e \<Rightarrow> Inl e
       | Inr errors \<Rightarrow>
           if errors \<noteq> [] then Inl (ValidationError (Some errors)) else Inr ()))"

section \<open>The registry of format predicates\<close>

text \<open>
  Modelled from the spec: the registry of format predicates, \<open>FormatChecker\<close> of the
  validation engine, is not part of this program's sources. Following section 4.1 of the
  specification, \<open>register\<close> adds or overwrites an entry, and \<open>check\<close> returns true for a
  name that is unknown and for a value that is not a string, and the predicate's answer
  otherwise.
\<close>

type_synonym registry = "string \<rightharpoonup> (py \<Rightarrow> bool)"

definition register :: "registry \<Rightarrow> string \<Rightarrow> (py \<Rightarrow> bool) \<Rightarrow> registry" where
  "register reg name predicate = reg(name \<mapsto> predicate)"

definition check :: "registry \<Rightarrow> string \<Rightarrow> py \<Rightarrow> bool" where
  "check reg name x =
     (case reg name of
        None \<Rightarrow> True
      | Some predicate \<Rightarrow> if \<not> is_str x then True else predicate x)"

text \<open>The decorator \<open>@FormatChecker.cls_checks('human-uuid')\<close> on \<open>check_human_uuid\<close>.\<close>

definition checkers :: "registry \<Rightarrow> registry" where
  "checkers builtin = register builtin ''human-uuid'' check_human_uuid"

section \<open>Vocabulary of the statements\<close>

text \<open>
  The definitions of this section are not part of the program: they name what the
  theorems below say about it.
\<close>

text \<open>The specification's pattern for a UUID: 36 characters, lowercase hexadecimal digits
  in groups of 8, 4, 4, 4 and 12, with a hyphen after each of the first four groups.\<close>

definition uuid_shape :: "string \<Rightarrow> bool" where
  "uuid_shape s =
     (length s = 36
      \<and> set (take 8 s) \<subseteq> set hexdigit \<and> s ! 8 = CHR ''-''
      \<and> set (take 4 (drop 9 s)) \<subseteq> set hexdigit \<and> s ! 13 = CHR ''-''
      \<and> set (take 4 (drop 14 s)) \<subseteq> set hexdigit \<and> s ! 18 = CHR ''-''
      \<and> set (take 4 (drop 19 s)) \<subseteq> set hexdigit \<and> s ! 23 = CHR ''-''
      \<and> set (drop 24 s) \<subseteq> set hexdigit)"

text \<open>The groups that take part in every match of an expression.\<close>

fun must_groups :: "regex \<Rightarrow> nat set" where
  "must_groups (RGroup i r) = insert i (must_groups r)"
| "must_groups (RCat a b) = must_groups a \<union> must_groups b"
| "must_groups (RTimes (Suc n) r) = must_groups r"
| "must_groups _ = {}"

text \<open>
  What the constructor \<open>StrictVersion\<close> makes of a version string: \<open>invalid_version\<close> when
  parsing raises \<open>ValueError\<close>, and \<open>major_of\<close> the first component of the parsed version.
\<close>

definition invalid_version :: "string \<Rightarrow> bool" where
  "invalid_version v = (StrictVersion v = Inl ValueError)"

definition major_of :: "string \<Rightarrow> int option" where
  "major_of v =
     (case StrictVersion v of
        Inr (Some (major, minor, patch)) \<Rightarrow> Some (int major)
      | _ \<Rightarrow> None)"

text \<open>
  A message type's value is well shaped when it is a dictionary and not empty. For one
  item of \<open>schema['schemas']\<close>: the errors its scan records, the (message type, major
  version) pairs its version keys cover, and whether its scan meets a version key that is
  the empty string.
\<close>

definition well_shaped :: "py \<Rightarrow> bool" where
  "well_shaped versions = (is_dict versions \<and> truthy versions)"

fun version_keys :: "py \<Rightarrow> string list" where
  "version_keys (PDict kvs) = map fst kvs"
| "version_keys _ = []"

definition type_issues :: "string \<times> py \<Rightarrow> schema_issue list" where
  "type_issues tv =
     (if well_shaped (snd tv)
      then map (\<lambda>v. Invalid_version v (fst tv)) (filter invalid_version (version_keys (snd tv)))
      else [Invalid_definition (fst tv)])"

definition type_covers :: "string \<times> py \<Rightarrow> (string \<times> int) list" where
  "type_covers tv =
     (if well_shaped (snd tv)
      then map (Pair (fst tv)) (List.map_filter major_of (version_keys (snd tv)))
      else [])"

definition type_crashes :: "string \<times> py \<Rightarrow> bool" where
  "type_crashes tv = (well_shaped (snd tv) \<and> [] \<in> set (version_keys (snd tv)))"

definition covered :: "(string \<times> py) list \<Rightarrow> (string \<times> int) list" where
  "covered types = concat (map type_covers types)"

text \<open>
  The keys of \<open>msg_types_found\<close>, which are the keys of the routing setting; setting the
  flags of the covered pairs; the message for a pair that is not found; and the last two
  lines of \<open>check_schema\<close>.
\<close>

definition required :: "((string \<times> int) \<times> 'r) list \<Rightarrow> (string \<times> int) list" where
  "required routing = map fst (fold (\<lambda>k d. dict_set d k False) (map fst routing) [])"

definition mark :: "(string \<times> int) list \<Rightarrow> found_flags \<Rightarrow> found_flags" where
  "mark cs found = map (\<lambda>(k, f). (k, f \<or> k \<in> set cs)) found"

definition not_found :: "string \<times> int \<Rightarrow> schema_issue" where
  "not_found k = Schema_not_found (fst k) (snd k)"


definition raise_if_any :: "schema_issue list \<Rightarrow> exn + unit" where
  "raise_if_any errors = (if errors \<noteq> [] then Inl (SchemaError errors) else Inr ())"

text \<open>
  The three numbers of the specification's completeness property: the message types that
  are not well shaped, the version strings that do not parse, and the required pairs that
  no version covers.
\<close>

definition shape_errors :: "(string \<times> py) list \<Rightarrow> nat" where
  "shape_errors types = length (filter (\<lambda>tv. \<not> well_shaped (snd tv)) types)"

definition malformed_versions :: "(string \<times> py) list \<Rightarrow> nat" where
  "malformed_versions types =
     length (concat (map (\<lambda>tv. if well_shaped (snd tv)
                              then filter invalid_version (version_keys (snd tv)) else []) types))"

definition missing_pairs ::
  "((string \<times> int) \<times> 'r) list \<Rightarrow> (string \<times> py) list \<Rightarrow> (string \<times> int) list" where
  "missing_pairs routing types = filter (\<lambda>k. k \<notin> set (covered types)) (required routing)"

text \<open>
  An entry is extra when its version parses and its (message type, major version) pair is
  not a key of the routing setting. \<open>adds_entry\<close> adds to the message types of a document
  either a new message type all of whose versions are extra, or one extra version to a
  message type, at any place.
\<close>

definition is_extra :: "((string \<times> int) \<times> 'r) list \<Rightarrow> string \<Rightarrow> string \<Rightarrow> bool" where
  "is_extra routing t v =
     (case major_of v of None \<Rightarrow> False | Some m \<Rightarrow> \<not> key_in (t, m) routing)"

definition all_parse :: "string \<times> py \<Rightarrow> bool" where
  "all_parse tv =
     (well_shaped (snd tv) \<and> list_all (\<lambda>v. major_of v \<noteq> None) (version_keys (snd tv)))"

inductive adds_entry ::
  "((string \<times> int) \<times> 'r) list \<Rightarrow> (string \<times> py) list \<Rightarrow> (string \<times> py) list \<Rightarrow> bool"
  for routing where
  extra_type:
    "vs \<noteq> [] \<Longrightarrow> list_all (is_extra routing t) (map fst vs) \<Longrightarrow>
     adds_entry routing (xs @ ys) (xs @ (t, PDict vs) # ys)"
| extra_version:
    "is_extra routing t v \<Longrightarrow>
     adds_entry routing (xs @ (t, PDict (vs1 @ vs2)) # ys)
       (xs @ (t, PDict (vs1 @ (v, d) # vs2)) # ys)"

section \<open>The pattern of \<open>human-uuid\<close>\<close>

lemma rmatch_times_chars:
  "rmatch (RTimes n (RChars cs)) (p, s, g) =
     (if n \<le> length s \<and> set (take n s) \<subseteq> set cs then [(p + n, drop n s, g)] else [])"
proof (induction n arbitrary: p s)
  case 0
  then show ?case by simp
next
  case (Suc n)
  show ?case
  proof (cases s)
    case Nil
    then show ?thesis by simp
  next
    case (Cons c r)
    then show ?thesis using Suc.IH [of "Suc p" r] by auto
  qed
qed

lemma rmatch_dash:
  "rmatch (RChars ''-'') (p, s, g) =
     (if s \<noteq> [] \<and> s ! 0 = CHR ''-'' then [(Suc p, drop 1 s, g)] else [])"
  by (cases s) auto

lemma rmatch_human_uuid_re:
  "rmatch human_uuid_re (0, s, []) \<noteq> [] \<longleftrightarrow>
     (\<exists>u. uuid_shape u \<and> (s = u \<or> s = u @ [newline]))"
proof -
  have chain: "rmatch human_uuid_re (0, s, []) \<noteq> [] \<longleftrightarrow>
     (36 \<le> length s
      \<and> set (take 8 s) \<subseteq> set hexdigit \<and> s ! 8 = CHR ''-''
      \<and> set (take 4 (drop 9 s)) \<subseteq> set hexdigit \<and> s ! 13 = CHR ''-''
      \<and> set (take 4 (drop 14 s)) \<subseteq> set hexdigit \<and> s ! 18 = CHR ''-''
      \<and> set (take 4 (drop 19 s)) \<subseteq> set hexdigit \<and> s ! 23 = CHR ''-''
      \<and> set (take 12 (drop 24 s)) \<subseteq> set hexdigit
      \<and> (drop 36 s = [] \<or> drop 36 s = [newline]))"
    unfolding human_uuid_re_def
    by (auto simp: rmatch_times_chars rmatch_dash simp del: rmatch.simps(4) rmatch.simps(5,6))
  show ?thesis
  proof
    assume "rmatch human_uuid_re (0, s, []) \<noteq> []"
    then have c: "36 \<le> length s"
      "set (take 8 s) \<subseteq> set hexdigit" "s ! 8 = CHR ''-''"
      "set (take 4 (drop 9 s)) \<subseteq> set hexdigit" "s ! 13 = CHR ''-''"
      "set (take 4 (drop 14 s)) \<subseteq> set hexdigit" "s ! 18 = CHR ''-''"
      "set (take 4 (drop 19 s)) \<subseteq> set hexdigit" "s ! 23 = CHR ''-''"
      "set (take 12 (drop 24 s)) \<subseteq> set hexdigit"
      "drop 36 s = [] \<or> drop 36 s = [newline]"
      using chain by simp_all
    have u: "uuid_shape (take 36 s)"
      using c(1-10) by (simp add: uuid_shape_def drop_take min_def)
    have "s = take 36 s @ drop 36 s" by simp
    then have "s = take 36 s \<or> s = take 36 s @ [newline]"
      using c(11) by (metis append_Nil2)
    then show "\<exists>u. uuid_shape u \<and> (s = u \<or> s = u @ [newline])"
      using u by blast
  next
    assume "\<exists>u. uuid_shape u \<and> (s = u \<or> s = u @ [newline])"
    then obtain u where u: "uuid_shape u" and s: "s = u \<or> s = u @ [newline]" by blast
    from s show "rmatch human_uuid_re (0, s, []) \<noteq> []"
    proof
      assume "s = u"
      then show ?thesis using u unfolding chain by (simp add: uuid_shape_def)
    next
      assume "s = u @ [newline]"
      then show ?thesis using u unfolding chain by (simp add: uuid_shape_def nth_append)
    qed
  qed
qed

text \<open>
  What \<open>check_human_uuid\<close> accepts: every value that is not a string, and the strings that
  have the specification's shape, alone or followed by one newline.
\<close>

lemma check_human_uuid_iff:
  "check_human_uuid x \<longleftrightarrow>
     (\<forall>s. x = PStr s \<longrightarrow> (\<exists>u. uuid_shape u \<and> (s = u \<or> s = u @ [newline])))"
proof (cases x)
  case (PStr s)
  have "re_match human_uuid_re s \<noteq> None \<longleftrightarrow> rmatch human_uuid_re (0, s, []) \<noteq> []"
    by (auto simp: re_match_def split: list.splits)
  then show ?thesis using PStr rmatch_human_uuid_re [of s] by (simp add: check_human_uuid_def)
qed (simp_all add: check_human_uuid_def)

text \<open>
  Claim C1. The claim is that a string passes \<open>human-uuid\<close> exactly when it has the
  lowercase 8-4-4-4-12 shape, so that any other length fails. The string below has 37
  characters, a UUID followed by a newline, and passes: \<open>$\<close> matches before a final
  newline.
\<close>

theorem check_human_uuid_trailing_newline:
  "check_human_uuid (PStr (''123e4567-e89b-12d3-a456-426614174000'' @ [newline]))
   \<and> length (''123e4567-e89b-12d3-a456-426614174000'' @ [newline]) = 37
   \<and> check (checkers builtin) ''human-uuid''
       (PStr (''123e4567-e89b-12d3-a456-426614174000'' @ [newline]))"
proof -
  have "check_human_uuid (PStr (''123e4567-e89b-12d3-a456-426614174000'' @ [newline]))"
    by code_simp
  then show ?thesis by (simp add: check_def checkers_def register_def)
qed

text \<open>
  Claim C6. For a format name that is not in the registry, \<open>check\<close> is true of every value.
\<close>

theorem check_unregistered_format:
  assumes "reg name = None"
  shows "check reg name x"
  using assms by (simp add: check_def)

theorem check_unregistered_format_witness:
  "checkers Map.empty ''no-such-format'' = None
   \<and> check (checkers Map.empty) ''no-such-format'' (PStr ''anything'')"
proof -
  have h: "checkers Map.empty ''no-such-format'' = None"
    by (simp add: checkers_def register_def)
  show ?thesis
    using h check_unregistered_format [of "checkers Map.empty" "''no-such-format''", OF h]
    by simp
qed

section \<open>Version strings\<close>

lemma rmatch_groups:
  "st' \<in> set (rmatch r st) \<Longrightarrow>
   must_groups r \<union> fst ` set (snd (snd st)) \<subseteq> fst ` set (snd (snd st'))"
proof (induction r st arbitrary: st' rule: rmatch.induct)
  case (6 n r st)
  from "6.prems" obtain x where x: "x \<in> set (rmatch r st)" "st' \<in> set (rmatch (RTimes n r) x)"
    by auto
  from "6.IH"(1) [OF x(1)] "6.IH"(2) [OF x(1) x(2)]
  have "must_groups r \<union> fst ` set (snd (snd st)) \<subseteq> fst ` set (snd (snd st'))" by blast
  then show ?case by simp
next
  case (10 a b st)
  from "10.prems" obtain x where x: "x \<in> set (rmatch a st)" "st' \<in> set (rmatch b x)"
    by auto
  from "10.IH"(1) [OF x(1)] "10.IH"(2) [OF x(1) x(2)]
  have "must_groups a \<union> must_groups b \<union> fst ` set (snd (snd st))
      \<subseteq> fst ` set (snd (snd st'))" by blast
  then show ?case by simp
next
  case (9 i r p s g)
  from "9.prems" obtain x where x: "x \<in> set (rmatch r (p, s, g))"
    "st' = (fst x, fst (snd x), (i, take (fst x - p) s) # snd (snd x))"
    by (auto simp: case_prod_beta)
  from "9.IH" [OF x(1)] have "must_groups r \<union> fst ` set g \<subseteq> fst ` set (snd (snd x))"
    by simp
  then have "insert i (must_groups r) \<union> fst ` set g
      \<subseteq> fst ` set ((i, take (fst x - p) s) # snd (snd x))" by auto
  then show ?case using x(2) by simp
next
  case (8 r st)
  from "8.prems" have "st' \<in> set (rmatch r st) \<or> st' = st" by auto
  then show ?case
  proof
    assume "st' \<in> set (rmatch r st)"
    from "8.IH" [OF this] show ?thesis by simp
  next
    assume "st' = st"
    then show ?thesis by simp
  qed
next
  case (4 cs p s g)
  then show ?case by (auto split: list.splits if_splits)
qed (auto split: if_splits)

lemma version_re_groups:
  assumes "re_match version_re v = Some g"
  shows "map_of g 1 \<noteq> None \<and> map_of g 2 \<noteq> None"
proof -
  from assms obtain p s' ms where m: "rmatch version_re (0, v, []) = (p, s', g) # ms"
    by (auto simp: re_match_def split: list.splits)
  then have "(p, s', g) \<in> set (rmatch version_re (0, v, []))" by simp
  from rmatch_groups [OF this] have "{1, 2} \<subseteq> fst ` set g"
    by (simp add: version_re_def)
  then show ?thesis by (simp add: map_of_eq_None_iff)
qed

lemma StrictVersion_None_iff: "StrictVersion v = Inr None \<longleftrightarrow> v = []"
  by (auto simp: StrictVersion_def split: option.splits)

lemma StrictVersion_Inl: "StrictVersion v = Inl e \<Longrightarrow> e = ValueError"
  using version_re_groups [of v]
  by (auto simp: StrictVersion_def split: option.splits if_splits)

lemma StrictVersion_cases:
  obtains (unparsed) "v = []" "StrictVersion v = Inr None" "\<not> invalid_version v"
      "major_of v = None"
  | (invalid) "v \<noteq> []" "StrictVersion v = Inl ValueError" "invalid_version v" "major_of v = None"
  | (parsed) major minor patch where "v \<noteq> []" "StrictVersion v = Inr (Some (major, minor, patch))"
      "\<not> invalid_version v" "major_of v = Some (int major)"
proof (cases "StrictVersion v")
  case (Inl e)
  then have "StrictVersion v = Inl ValueError" using StrictVersion_Inl by blast
  moreover have "v \<noteq> []" using Inl by (auto simp: StrictVersion_def)
  ultimately show ?thesis using invalid by (simp add: invalid_version_def major_of_def)
next
  case (Inr r)
  show ?thesis
  proof (cases r)
    case None
    then have n: "StrictVersion v = Inr None" using Inr by simp
    then have "v = []" using StrictVersion_None_iff by blast
    moreover have "\<not> invalid_version v" "major_of v = None"
      using n by (simp_all add: invalid_version_def major_of_def)
    ultimately show ?thesis using n unparsed by blast
  next
    case (Some t)
    obtain a b c where t: "t = (a, b, c)" by (cases t)
    have "v \<noteq> []" using Inr Some by (auto simp: StrictVersion_def)
    then show ?thesis using parsed [of a b c] Inr Some t
      by (simp add: invalid_version_def major_of_def)
  qed
qed

lemma major_of_nonempty: "major_of v \<noteq> None \<Longrightarrow> v \<noteq> [] \<and> \<not> invalid_version v"
  by (cases v rule: StrictVersion_cases) auto

lemma major_of_examples:
  "major_of ''1.0'' = Some 1" "major_of ''2.0'' = Some 2"
  by code_simp+

section \<open>The dictionary of found flags\<close>

lemma key_in_iff: "key_in k d \<longleftrightarrow> k \<in> fst ` set d"
  by (simp add: key_in_def map_of_eq_None_iff)

lemma dict_set_fresh: "k \<notin> fst ` set d \<Longrightarrow> dict_set d k v = d @ [(k, v)]"
  by (induction d) auto

lemma dict_set_keys: "fst ` set (dict_set d k v) = insert k (fst ` set d)"
proof (induction d)
  case Nil
  show ?case by simp
next
  case (Cons kv d)
  obtain k' v' where kv: "kv = (k', v')" by (cases kv)
  show ?case
  proof (cases "k' = k")
    case True
    then show ?thesis using kv by simp
  next
    case False
    then show ?thesis using kv Cons.IH by (simp add: insert_commute)
  qed
qed

lemma dict_set_distinct: "distinct (map fst d) \<Longrightarrow> distinct (map fst (dict_set d k v))"
proof (induction d)
  case Nil
  then show ?case by simp
next
  case (Cons kv d)
  obtain k' v' where kv: "kv = (k', v')" by (cases kv)
  have "k' \<notin> fst ` set d" "distinct (map fst d)" using Cons.prems kv by auto
  then show ?case using kv Cons.IH by (auto simp: dict_set_keys)
qed

lemma dict_set_all_False:
  "list_all (\<lambda>kf. \<not> snd kf) d \<Longrightarrow> list_all (\<lambda>kf. \<not> snd kf) (dict_set d k False)"
  by (induction d) auto

lemma fold_dict_set_flags:
  "list_all (\<lambda>kf. \<not> snd kf) d \<Longrightarrow> distinct (map fst d) \<Longrightarrow>
   list_all (\<lambda>kf. \<not> snd kf) (fold (\<lambda>k d. dict_set d k False) ks d)
   \<and> distinct (map fst (fold (\<lambda>k d. dict_set d k False) ks d))
   \<and> fst ` set (fold (\<lambda>k d. dict_set d k False) ks d) = fst ` set d \<union> set ks"
proof (induction ks arbitrary: d)
  case Nil
  then show ?case by simp
next
  case (Cons k ks)
  have "list_all (\<lambda>kf. \<not> snd kf) (dict_set d k False)"
    using Cons.prems(1) by (rule dict_set_all_False)
  moreover have "distinct (map fst (dict_set d k False))"
    using Cons.prems(2) by (rule dict_set_distinct)
  ultimately show ?case using Cons.IH [of "dict_set d k False"]
    by (simp add: dict_set_keys)
qed

lemma fold_dict_set_distinct:
  "distinct ks \<Longrightarrow> set ks \<inter> fst ` set d = {} \<Longrightarrow>
   fold (\<lambda>k d. dict_set d k False) ks d = d @ map (\<lambda>k. (k, False)) ks"
proof (induction ks arbitrary: d)
  case Nil
  then show ?case by simp
next
  case (Cons k ks)
  have "k \<notin> fst ` set d" using Cons.prems by auto
  then have e: "dict_set d k False = d @ [(k, False)]" by (rule dict_set_fresh)
  have "set ks \<inter> fst ` set (d @ [(k, False)]) = {}" using Cons.prems by auto
  moreover have "distinct ks" using Cons.prems by simp
  ultimately show ?case using Cons.IH [of "d @ [(k, False)]"] e by simp
qed

lemma all_False_flags: "list_all (\<lambda>kf. \<not> snd kf) d \<Longrightarrow> d = map (\<lambda>k. (k, False)) (map fst d)"
  by (induction d) auto

lemma msg_types_found_init:
  "fold (\<lambda>k d. dict_set d k False) (map fst routing) [] = map (\<lambda>k. (k, False)) (required routing)"
proof -
  have "list_all (\<lambda>kf. \<not> snd kf) (fold (\<lambda>k d. dict_set d k False) (map fst routing) [])"
    using fold_dict_set_flags [of "[]" "map fst routing"] by simp
  then show ?thesis unfolding required_def by (rule all_False_flags)
qed

lemma distinct_required: "distinct (required routing)"
  unfolding required_def using fold_dict_set_flags [of "[]" "map fst routing"] by simp

lemma set_required: "set (required routing) = fst ` set routing"
  unfolding required_def using fold_dict_set_flags [of "[]" "map fst routing"] by simp

lemma required_distinct: "distinct (map fst routing) \<Longrightarrow> required routing = map fst routing"
  unfolding required_def using fold_dict_set_distinct [of "map fst routing" "[]"]
  by (simp add: comp_def)

lemma map_fst_mark [simp]: "map fst (mark cs found) = map fst found"
  by (induction found) (auto simp: mark_def)

lemma mark_mark: "mark a (mark b found) = mark (b @ a) found"
  by (induction found) (auto simp: mark_def)

lemma mark_Nil [simp]: "mark [] found = found"
  by (induction found) (auto simp: mark_def)

lemma dict_set_flag:
  "distinct (map fst found) \<Longrightarrow>
   (if key_in k found then dict_set found k True else found) = mark [k] found"
proof (induction found)
  case Nil
  then show ?case by (simp add: key_in_def mark_def)
next
  case (Cons kf found)
  obtain k' f where kf: "kf = (k', f)" by (cases kf)
  show ?case
  proof (cases "k' = k")
    case True
    have "k \<notin> fst ` set found" using Cons.prems kf True by auto
    then have "map (\<lambda>(k', f). (k', f \<or> k' \<in> set [k])) found = found"
      by (induction found) auto
    then show ?thesis using kf True by (simp add: key_in_def mark_def)
  next
    case False
    have "distinct (map fst found)" using Cons.prems by simp
    from Cons.IH [OF this] show ?thesis using kf False
      by (auto simp: key_in_def mark_def split: if_splits)
  qed
qed

lemma not_found_loop_eq:
  "not_found_loop found errs = errs @ map not_found (map fst (filter (\<lambda>kf. \<not> snd kf) found))"
  by (induction found errs rule: not_found_loop.induct) (auto simp: not_found_def)

lemma unmarked:
  "map fst (filter (\<lambda>kf. \<not> snd kf) (mark cs (map (\<lambda>k. (k, False)) ks)))
     = filter (\<lambda>k. k \<notin> set cs) ks"
  by (induction ks) (auto simp: mark_def)

lemma not_found_loop_mark:
  "not_found_loop (mark cs (map (\<lambda>k. (k, False)) ks)) errs
     = errs @ map not_found (filter (\<lambda>k. k \<notin> set cs) ks)"
  by (simp only: not_found_loop_eq unmarked)

section \<open>The loops of \<open>check_schema\<close>\<close>

lemma type_crashes_Pair:
  "type_crashes (t, versions) = (well_shaped versions \<and> [] \<in> set (version_keys versions))"
  by (simp add: type_crashes_def)

lemma type_issues_Pair:
  "type_issues (t, versions) =
     (if well_shaped versions
      then map (\<lambda>v. Invalid_version v t) (filter invalid_version (version_keys versions))
      else [Invalid_definition t])"
  by (simp add: type_issues_def)

lemma type_covers_Pair:
  "type_covers (t, versions) =
     (if well_shaped versions
      then map (Pair t) (List.map_filter major_of (version_keys versions))
      else [])"
  by (simp add: type_covers_def)

lemma versions_loop_eq:
  assumes "distinct (map fst found)"
  shows "versions_loop t vs (errs, found) =
    (if [] \<in> set (map fst vs) then Inl AttributeError
     else Inr (errs @ map (\<lambda>v. Invalid_version v t) (filter invalid_version (map fst vs)),
               mark (map (Pair t) (List.map_filter major_of (map fst vs))) found))"
  using assms
proof (induction vs arbitrary: errs found)
  case Nil
  then show ?case by (simp add: map_filter_simps)
next
  case (Cons vd vs)
  obtain v d where vd: "vd = (v, d)" by (cases vd)
  show ?case
  proof (cases v rule: StrictVersion_cases)
    case unparsed
    then show ?thesis using vd by simp
  next
    case invalid
    then show ?thesis using vd Cons.IH [OF Cons.prems] by (simp add: map_filter_simps)
  next
    case (parsed major minor patch)
    have d': "distinct (map fst (mark [(t, int major)] found))" using Cons.prems by simp
    show ?thesis using vd parsed Cons.IH [OF d'] dict_set_flag [OF Cons.prems, of "(t, int major)"]
      by (simp add: map_filter_simps mark_mark)
  qed
qed

lemma types_loop_eq:
  assumes "distinct (map fst found)"
  shows "types_loop types (errs, found) =
    (if list_ex type_crashes types then Inl AttributeError
     else Inr (errs @ concat (map type_issues types),
               mark (concat (map type_covers types)) found))"
  using assms
proof (induction types arbitrary: errs found)
  case Nil
  then show ?case by simp
next
  case (Cons tv types)
  obtain t versions where tv: "tv = (t, versions)" by (cases tv)
  show ?case
  proof (cases "well_shaped versions")
    case False
    then have "\<not> is_dict versions \<or> \<not> truthy versions" by (simp add: well_shaped_def)
    then show ?thesis using tv False Cons.IH [OF Cons.prems]
      by (simp add: type_crashes_Pair type_issues_Pair type_covers_Pair)
  next
    case True
    then obtain vs where vs: "versions = PDict vs" "vs \<noteq> []"
      by (cases versions) (auto simp: well_shaped_def)
    show ?thesis
    proof (cases "[] \<in> set (map fst vs)")
      case c: True
      then show ?thesis using tv True vs versions_loop_eq [OF Cons.prems, of t vs errs]
        by (simp add: type_crashes_Pair)
    next
      case c: False
      let ?found = "mark (map (Pair t) (List.map_filter major_of (map fst vs))) found"
      have d': "distinct (map fst ?found)" using Cons.prems by simp
      show ?thesis using tv True vs c versions_loop_eq [OF Cons.prems, of t vs errs]
          Cons.IH [OF d']
        by (simp add: type_crashes_Pair type_issues_Pair type_covers_Pair mark_mark)
    qed
  qed
qed

lemma length_type_issues:
  "length (concat (map type_issues types)) = shape_errors types + malformed_versions types"
  by (induction types) (auto simp: type_issues_def shape_errors_def malformed_versions_def)


lemma covered_append: "covered (xs @ ys) = covered xs @ covered ys"
  by (simp add: covered_def)

lemma covered_Cons: "covered (tv # ys) = type_covers tv @ covered ys"
  by (simp add: covered_def)

lemma set_map_filter_eq: "set (List.map_filter f xs) = {y. \<exists>x \<in> set xs. f x = Some y}"
  by (induction xs) (auto simp: map_filter_simps split: option.splits)

lemma in_type_covers:
  "k \<in> set (type_covers (t, versions)) \<longleftrightarrow>
     well_shaped versions \<and> fst k = t
     \<and> (\<exists>v \<in> set (version_keys versions). major_of v = Some (snd k))"
  by (cases k) (auto simp: type_covers_Pair set_map_filter_eq)

section \<open>The check of a schema document\<close>

text \<open>A document without a value under \<open>schemas\<close>, and a document whose \<open>schemas\<close> is a
  dictionary of message types.\<close>

lemma check_schema_no_schemas:
  assumes "super_check_schema (PDict kvs) = None"
    and "\<not> truthy (dict_get kvs ''schemas'')"
  shows "check_schema super_check_schema routing (PDict kvs)
           = Inl (SchemaError (Invalid_schema_file # map not_found (required routing)))"
  using assms not_found_loop_mark [of "[]" "required routing" "[Invalid_schema_file]"]
  by (simp add: check_schema_def msg_types_found_init)

lemma check_schema_scan:
  assumes "super_check_schema (PDict kvs) = None"
    and "dict_get kvs ''schemas'' = PDict types" and "types \<noteq> []"
  shows "check_schema super_check_schema routing (PDict kvs)
           = (if list_ex type_crashes types then Inl AttributeError
              else raise_if_any
                (concat (map type_issues types)
                 @ map not_found
                     (filter (\<lambda>k. k \<notin> set (concat (map type_covers types))) (required routing))))"
proof -
  have d: "distinct (map fst (map (\<lambda>k. (k, False)) (required routing)))"
    using distinct_required [of routing] by (simp add: comp_def)
  have t: "truthy (dict_get kvs ''schemas'')" using assms by simp
  show ?thesis
  proof (cases "list_ex type_crashes types")
    case True
    then show ?thesis
      using assms(1,2) t types_loop_eq [OF d, of types "[]"]
      by (simp add: check_schema_def msg_types_found_init)
  next
    case False
    then have "types_loop types ([], map (\<lambda>k. (k, False)) (required routing))
        = Inr (concat (map type_issues types),
               mark (concat (map type_covers types)) (map (\<lambda>k. (k, False)) (required routing)))"
      using types_loop_eq [OF d, of types "[]"] by simp
    then show ?thesis
      using assms(1,2) t False
      by (simp add: check_schema_def msg_types_found_init not_found_loop_mark raise_if_any_def
          del: set_concat)
  qed
qed

text \<open>
  When no version key of a well shaped message type is the empty string, the check
  collects every error in one pass: it raises one \<open>SchemaError\<close> whose list has one entry
  for each message type that is not well shaped, one for each version string that does not
  parse and one for each required pair that is not covered, and it returns normally when
  that list is empty.
\<close>

lemma check_schema_collects_all:
  assumes "super_check_schema (PDict kvs) = None"
    and "dict_get kvs ''schemas'' = PDict types" and "types \<noteq> []"
    and "\<not> list_ex type_crashes types"
  shows "\<exists>errs. check_schema super_check_schema routing (PDict kvs) = raise_if_any errs
           \<and> length errs
               = shape_errors types + malformed_versions types
                 + length (missing_pairs routing types)"
proof -
  let ?errs = "concat (map type_issues types) @ map not_found (missing_pairs routing types)"
  have "check_schema super_check_schema routing (PDict kvs) = raise_if_any ?errs"
    using check_schema_scan [where routing = routing and super_check_schema = super_check_schema
        and kvs = kvs and types = types] assms
    by (simp add: missing_pairs_def covered_def del: set_concat)
  moreover have "length ?errs
      = shape_errors types + malformed_versions types + length (missing_pairs routing types)"
    by (simp add: length_type_issues del: set_concat)
  ultimately show ?thesis by blast
qed

text \<open>
  Claim C2. The claim is that for every document that passes the inherited check,
  \<open>check_schema\<close> raises one \<open>SchemaError\<close> with all K + M (and structural) errors. For the two
  documents below, which the inherited check accepts, it raises \<open>AttributeError\<close> instead: in
  the first the value of \<open>schemas\<close> is a list, which has no \<open>items\<close>; in the second a version
  key is the empty string, which \<open>StrictVersion\<close> does not parse, so that the object has no
  attribute \<open>version\<close>.
\<close>

theorem check_schema_raises_AttributeError:
  "check_schema (\<lambda>d. None) [((''trip_created'', 1), ''dev-trip-created'')]
     (PDict [(''id'', PStr ''https://hedwig.example/schema''),
             (''schemas'', PList [PStr ''trip_created''])])
     = Inl AttributeError
   \<and> check_schema (\<lambda>d. None) [((''trip_created'', 1), ''dev-trip-created'')]
     (PDict [(''id'', PStr ''https://hedwig.example/schema''),
             (''schemas'', PDict [(''trip_created'', PDict [('''', PDict [])])])])
     = Inl AttributeError"
  by (simp add: check_schema_def dict_get_def StrictVersion_def)



text \<open>
  Claim C9. For a document that passes the inherited check and has no value under
  \<open>schemas\<close>, or an empty one, \<open>check_schema\<close> raises \<open>SchemaError\<close> with the error about the
  key \<open>schemas\<close> followed by one "not found" error for each key of the routing setting, in
  the setting's order. The keys of a dictionary are distinct.
\<close>

theorem check_schema_without_schemas:
  assumes "super_check_schema (PDict kvs) = None"
    and "\<not> truthy (dict_get kvs ''schemas'')"
    and "distinct (map fst routing)"
  shows "check_schema super_check_schema routing (PDict kvs)
           = Inl (SchemaError
               (Invalid_schema_file # map (\<lambda>(t, m). Schema_not_found t m) (map fst routing)))"
proof -
  have "not_found = (\<lambda>(t, m). Schema_not_found t m)"
    by (auto simp: not_found_def fun_eq_iff)
  then show ?thesis
    using check_schema_no_schemas [where routing = routing
        and super_check_schema = super_check_schema and kvs = kvs] assms(1,2)
      required_distinct [OF assms(3)]
    by simp
qed

theorem check_schema_without_schemas_witness:
  "check_schema (\<lambda>d. None)
     [((''trip_created'', 1), ''dev-trip-created''), ((''user_updated'', 2), ''dev-user-updated'')]
     (PDict [(''id'', PStr ''https://hedwig.example/schema''), (''schemas'', PDict [])])
   = Inl (SchemaError [Invalid_schema_file, Schema_not_found ''trip_created'' 1,
                       Schema_not_found ''user_updated'' 2])"
  using check_schema_without_schemas
    [where super_check_schema = "\<lambda>d. None"
       and routing = "[((''trip_created'', 1), ''dev-trip-created''),
                       ((''user_updated'', 2), ''dev-user-updated'')]"
       and kvs = "[(''id'', PStr ''https://hedwig.example/schema''), (''schemas'', PDict [])]"]
  by (simp add: dict_get_def)

section \<open>Entries beyond the required set\<close>

lemma is_extra_parses: "is_extra routing t v \<Longrightarrow> major_of v \<noteq> None"
  by (auto simp: is_extra_def split: option.splits)

lemma extra_not_required:
  "is_extra routing t v \<Longrightarrow> k \<in> fst ` set routing \<Longrightarrow> fst k = t \<Longrightarrow>
   major_of v \<noteq> Some (snd k)"
  by (cases k) (auto simp: is_extra_def key_in_iff split: option.splits)

lemma adds_entry_step:
  assumes "adds_entry routing ts ts'" and "list_all all_parse ts"
  shows "list_all all_parse ts' \<and> ts' \<noteq> []
         \<and> (\<forall>k \<in> fst ` set routing. k \<in> set (covered ts') \<longleftrightarrow> k \<in> set (covered ts))"
  using assms
proof (induction rule: adds_entry.induct)
  case (extra_type vs t xs ys)
  have p: "all_parse (t, PDict vs)"
    using extra_type.hyps is_extra_parses [of routing t]
    by (auto simp: all_parse_def well_shaped_def list_all_iff)
  have c: "\<forall>k \<in> fst ` set routing. k \<notin> set (type_covers (t, PDict vs))"
  proof
    fix k assume k: "k \<in> fst ` set routing"
    show "k \<notin> set (type_covers (t, PDict vs))"
    proof
      assume "k \<in> set (type_covers (t, PDict vs))"
      then obtain v where v: "v \<in> set (map fst vs)" "major_of v = Some (snd k)" "fst k = t"
        by (auto simp: in_type_covers)
      have "is_extra routing t v" using extra_type.hyps(2) v(1) by (auto simp: list_all_iff)
      from extra_not_required [OF this k v(3)] v(2) show False by simp
    qed
  qed
  show ?case using p c extra_type.prems by (auto simp: covered_append covered_Cons)
next
  case (extra_version t v xs vs1 vs2 ys d)
  have w: "all_parse (t, PDict (vs1 @ vs2))" using extra_version.prems by simp
  have p: "all_parse (t, PDict (vs1 @ (v, d) # vs2))"
    using w is_extra_parses [OF extra_version.hyps]
    by (auto simp: all_parse_def well_shaped_def)
  have c: "\<forall>k \<in> fst ` set routing.
      k \<in> set (type_covers (t, PDict (vs1 @ (v, d) # vs2)))
      \<longleftrightarrow> k \<in> set (type_covers (t, PDict (vs1 @ vs2)))"
  proof
    fix k assume k: "k \<in> fst ` set routing"
    have "fst k = t \<Longrightarrow> major_of v \<noteq> Some (snd k)"
      using extra_not_required [OF extra_version.hyps k] .
    moreover have "well_shaped (PDict (vs1 @ vs2))" "well_shaped (PDict (vs1 @ (v, d) # vs2))"
      using w p by (simp_all add: all_parse_def)
    ultimately show "k \<in> set (type_covers (t, PDict (vs1 @ (v, d) # vs2)))
      \<longleftrightarrow> k \<in> set (type_covers (t, PDict (vs1 @ vs2)))"
      by (auto simp: in_type_covers)
  qed
  show ?case using p c extra_version.prems by (auto simp: covered_append covered_Cons)
qed

lemma adds_entries:
  assumes "(adds_entry routing)\<^sup>*\<^sup>* ts ts'" and "list_all all_parse ts" and "ts \<noteq> []"
  shows "list_all all_parse ts' \<and> ts' \<noteq> []
         \<and> (\<forall>k \<in> fst ` set routing. k \<in> set (covered ts') \<longleftrightarrow> k \<in> set (covered ts))"
  using assms
proof (induction rule: rtranclp_induct)
  case base
  then show ?case by simp
next
  case (step y z)
  then show ?case using adds_entry_step [of routing y z] by simp
qed

lemma all_parse_no_issues:
  "list_all all_parse types \<Longrightarrow>
   \<not> list_ex type_crashes types \<and> concat (map type_issues types) = []"
proof (induction types)
  case Nil
  then show ?case by simp
next
  case (Cons tv types)
  obtain t versions where tv: "tv = (t, versions)" by (cases tv)
  have a: "well_shaped versions" "list_all (\<lambda>v. major_of v \<noteq> None) (version_keys versions)"
    using Cons.prems tv by (auto simp: all_parse_def)
  have "[] \<notin> set (version_keys versions)" "filter invalid_version (version_keys versions) = []"
    using a(2) major_of_nonempty by (auto simp: list_all_iff filter_empty_conv)
  then show ?case using Cons tv a(1) by (simp add: type_crashes_Pair type_issues_Pair)
qed

lemma check_schema_all_parse:
  assumes "super_check_schema (PDict kvs) = None"
    and "dict_get kvs ''schemas'' = PDict types" and "types \<noteq> []"
    and "list_all all_parse types"
  shows "check_schema super_check_schema routing (PDict kvs)
           = raise_if_any
               (map not_found (filter (\<lambda>k. k \<notin> set (covered types)) (required routing)))"
  using check_schema_scan [where routing = routing and super_check_schema = super_check_schema
      and kvs = kvs and types = types] assms(1,2,3)
    all_parse_no_issues [OF assms(4)]
  by (simp add: covered_def del: set_concat)

text \<open>
  Claim C10. Take a document whose message types are all well shaped and whose version
  strings all parse, and add to it message types and versions whose (message type, major
  version) pairs are not keys of the routing setting. \<open>check_schema\<close> has the same outcome
  on both documents: it returns normally on both, or raises \<open>SchemaError\<close> with the same list.
\<close>

theorem check_schema_ignores_extra_entries:
  assumes "super_check_schema (PDict kvs) = None"
    and "super_check_schema (PDict kvs') = None"
    and "dict_get kvs ''schemas'' = PDict types"
    and "dict_get kvs' ''schemas'' = PDict types'"
    and "types \<noteq> []"
    and "list_all all_parse types"
    and "(adds_entry routing)\<^sup>*\<^sup>* types types'"
  shows "check_schema super_check_schema routing (PDict kvs')
           = check_schema super_check_schema routing (PDict kvs)"
proof -
  from adds_entries [OF assms(7,6,5)]
  have p: "list_all all_parse types'" and n: "types' \<noteq> []"
    and c: "\<forall>k \<in> fst ` set routing. k \<in> set (covered types') \<longleftrightarrow> k \<in> set (covered types)"
    by auto
  have "filter (\<lambda>k. k \<notin> set (covered types')) (required routing)
      = filter (\<lambda>k. k \<notin> set (covered types)) (required routing)"
    using c by (intro filter_cong) (auto simp: set_required)
  then show ?thesis
    using check_schema_all_parse [where routing = routing
        and super_check_schema = super_check_schema and kvs = kvs' and types = types']
      check_schema_all_parse [where routing = routing
        and super_check_schema = super_check_schema and kvs = kvs and types = types]
      assms n p
    by simp
qed

theorem check_schema_ignores_extra_entries_witness:
  "check_schema (\<lambda>d. None)
     [((''trip_created'', 1), ''dev-trip-created''), ((''trip_created'', 3), ''dev-trip-created-v3'')]
     (PDict [(''id'', PStr ''https://hedwig.example/schema''),
             (''schemas'', PDict
                [(''trip_created'', PDict [(''1.0'', PDict []), (''2.0'', PDict [])]),
                 (''user_updated'', PDict [(''1.0'', PDict [])])])])
   = check_schema (\<lambda>d. None)
     [((''trip_created'', 1), ''dev-trip-created''), ((''trip_created'', 3), ''dev-trip-created-v3'')]
     (PDict [(''id'', PStr ''https://hedwig.example/schema''),
             (''schemas'', PDict [(''trip_created'', PDict [(''1.0'', PDict [])])])])"
proof -
  let ?routing = "[((''trip_created'', 1::int), ''dev-trip-created''),
                   ((''trip_created'', 3), ''dev-trip-created-v3'')]"
  let ?t0 = "[(''trip_created'', PDict [(''1.0'', PDict [])])]"
  let ?t1 = "[(''trip_created'', PDict [(''1.0'', PDict []), (''2.0'', PDict [])])]"
  let ?t2 = "[(''trip_created'', PDict [(''1.0'', PDict []), (''2.0'', PDict [])]),
              (''user_updated'', PDict [(''1.0'', PDict [])])]"
  have e1: "is_extra ?routing ''trip_created'' ''2.0''"
    by (simp add: is_extra_def major_of_examples key_in_def)
  have e2: "list_all (is_extra ?routing ''user_updated'') (map fst [(''1.0'', PDict [])])"
    by (simp add: is_extra_def major_of_examples key_in_def)
  have s1: "adds_entry ?routing ?t0 ?t1"
    using extra_version [OF e1, of "[]" "[(''1.0'', PDict [])]" "[]" "[]" "PDict []"] by simp
  have s2: "adds_entry ?routing ?t1 ?t2"
    using extra_type [OF _ e2, of ?t1 "[]"] by simp
  have steps: "(adds_entry ?routing)\<^sup>*\<^sup>* ?t0 ?t2"
    using s1 s2 by (meson rtranclp.rtrancl_into_rtrancl rtranclp.rtrancl_refl)
  have p: "list_all all_parse ?t0"
    by (simp add: all_parse_def well_shaped_def major_of_examples)
  show ?thesis
    using check_schema_ignores_extra_entries
      [where super_check_schema = "\<lambda>d. None" and routing = ?routing
         and kvs = "[(''id'', PStr ''https://hedwig.example/schema''), (''schemas'', PDict ?t0)]"
         and kvs' = "[(''id'', PStr ''https://hedwig.example/schema''), (''schemas'', PDict ?t2)]"
         and types = ?t0 and types' = ?t2, OF _ _ _ _ _ p steps]
    by (simp add: dict_get_def)
qed

section \<open>Message validation\<close>

text \<open>
  Claim C3. A message whose schema reference does not start with the document's root id
  fails with \<open>ValidationError\<close> raised without an argument, so without any violation record,
  and the log of calls is empty: the reference is never resolved and no structural check
  is run, whatever the resolver and the engine would have answered.
\<close>

theorem validate_root_mismatch:
  assumes "schema_root doc = Inr (PStr root_id)"
    and "\<not> startswith (schema msg) root_id"
  shows "validate resolve iter_errors doc msg = ([], Inl (ValidationError None))"
  using assms by (simp add: validate_def)

theorem validate_root_mismatch_witness:
  "schema_root (PDict [(''id'', PStr ''https://hedwig.example/schema'')])
     = Inr (PStr ''https://hedwig.example/schema'')
   \<and> \<not> startswith ''https://other.example/schema#/schemas/trip_created/1.0''
         ''https://hedwig.example/schema''
   \<and> validate (\<lambda>r. Inr (PDict [])) (\<lambda>d s. Inr [Violation [] ''required'' ''missing''])
       (PDict [(''id'', PStr ''https://hedwig.example/schema'')])
       \<lparr>schema = ''https://other.example/schema#/schemas/trip_created/1.0'', data = PNone\<rparr>
     = ([], Inl (ValidationError None))"
proof -
  have r: "schema_root (PDict [(''id'', PStr ''https://hedwig.example/schema'')])
     = Inr (PStr ''https://hedwig.example/schema'')"
    by (simp add: schema_root_def)
  have n: "\<not> startswith
      (schema \<lparr>schema = ''https://other.example/schema#/schemas/trip_created/1.0'',
               data = PNone\<rparr>)
      ''https://hedwig.example/schema''"
    by (simp add: startswith_def)
  show ?thesis
    using r n validate_root_mismatch [OF r n] by simp
qed

text \<open>
  Claim C4. Once the reference of a message has been resolved to a sub-schema,
  \<open>MessageValidator.validate\<close> returns normally when the engine's sequence of violations is
  empty and raises \<open>ValidationError\<close> carrying the whole sequence otherwise; so does
  \<open>FormatValidator.validate\<close> for data checked against its own schema. Either raises
  \<open>ValidationError\<close> exactly when there is at least one violation. An exception of the engine
  itself is raised unchanged.
\<close>

theorem validate_raises_iff_violations:
  assumes "schema_root doc = Inr (PStr root_id)"
    and "startswith (schema msg) root_id"
    and "resolve (schema msg) = Inr sub"
  shows "snd (validate resolve iter_errors doc msg)
           = (case iter_errors (data msg) sub of
                Inl e \<Rightarrow> Inl e
              | Inr errors \<Rightarrow>
                  if errors = [] then Inr () else Inl (ValidationError (Some errors)))
         \<and> snd (format_validate iter_errors format_schema d)
           = (case iter_errors d format_schema of
                Inl e \<Rightarrow> Inl e
              | Inr errors \<Rightarrow>
                  if errors = [] then Inr () else Inl (ValidationError (Some errors)))"
  using assms by (simp add: validate_def format_validate_def split: sum.splits)

theorem validate_raises_iff_violations_witness:
  "snd (validate (\<lambda>r. Inr (PDict [(''required'', PList [PStr ''a'', PStr ''b'', PStr ''c''])]))
         (\<lambda>d s. if s = PDict [] then Inr []
                 else Inr [Violation [] ''required'' ''a'', Violation [] ''required'' ''b'',
                           Violation [] ''required'' ''c''])
         (PDict [(''id'', PStr ''https://hedwig.example/schema'')])
         \<lparr>schema = ''https://hedwig.example/schema#/schemas/trip_created/1.0'',
          data = PDict []\<rparr>)
     = Inl (ValidationError (Some [Violation [] ''required'' ''a'', Violation [] ''required'' ''b'',
                                   Violation [] ''required'' ''c'']))
   \<and> snd (format_validate
         (\<lambda>d s. if s = PDict [] then Inr []
                 else Inr [Violation [] ''required'' ''a'', Violation [] ''required'' ''b'',
                           Violation [] ''required'' ''c''])
         (PDict []) (PInt 1)) = Inr ()"
  using validate_raises_iff_violations
    [where resolve = "\<lambda>r. Inr (PDict [(''required'', PList [PStr ''a'', PStr ''b'', PStr ''c''])])"
       and iter_errors = "\<lambda>d s. if s = PDict [] then Inr []
             else Inr [Violation [] ''required'' ''a'', Violation [] ''required'' ''b'',
                       Violation [] ''required'' ''c'']"
       and doc = "PDict [(''id'', PStr ''https://hedwig.example/schema'')]"
       and msg = "\<lparr>schema = ''https://hedwig.example/schema#/schemas/trip_created/1.0'',
                   data = PDict []\<rparr>"
       and root_id = "''https://hedwig.example/schema''"
       and sub = "PDict [(''required'', PList [PStr ''a'', PStr ''b'', PStr ''c''])]"
       and format_schema = "PDict []" and d = "PInt 1"]
  by (simp add: schema_root_def startswith_def)

text \<open>
  The \<open>try\<close> of \<open>validate\<close> covers the resolution of the message's own reference only. When
  that reference resolves and the engine then raises while it checks the data, for example
  \<open>RefResolutionError\<close> for a reference inside the sub-schema that leads nowhere, the
  exception reaches the caller.
\<close>

lemma validate_engine_error:
  assumes "schema_root doc = Inr (PStr root_id)"
    and "startswith (schema msg) root_id"
    and "resolve (schema msg) = Inr sub"
    and "iter_errors (data msg) sub = Inl e"
  shows "validate resolve iter_errors doc msg
           = ([Resolve (schema msg), Iter_errors (data msg) sub], Inl e)"
  using assms by (simp add: validate_def)

text \<open>
  Claim C5. A message whose reference starts with the root id but which the resolver
  cannot resolve fails with \<open>ValidationError\<close> raised without an argument, after the one call
  to the resolver and before any structural check; the resolver's \<open>RefResolutionError\<close> does
  not reach the caller.
\<close>

theorem validate_unresolved_reference:
  assumes "schema_root doc = Inr (PStr root_id)"
    and "startswith (schema msg) root_id"
    and "resolve (schema msg) = Inl RefResolutionError"
  shows "validate resolve iter_errors doc msg
           = ([Resolve (schema msg)], Inl (ValidationError None))
         \<and> snd (validate resolve iter_errors doc msg) \<noteq> Inl RefResolutionError"
  using assms by (simp add: validate_def)

theorem validate_unresolved_reference_witness:
  "validate (\<lambda>r. Inl RefResolutionError) (\<lambda>d s. Inl RefResolutionError)
       (PDict [(''id'', PStr ''https://hedwig.example/schema'')])
       \<lparr>schema = ''https://hedwig.example/schema#/schemas/no_such_type/1.0'', data = PNone\<rparr>
     = ([Resolve ''https://hedwig.example/schema#/schemas/no_such_type/1.0''],
        Inl (ValidationError None))"
  using validate_unresolved_reference
    [where resolve = "\<lambda>r. Inl RefResolutionError" and iter_errors = "\<lambda>d s. Inl RefResolutionError"
       and doc = "PDict [(''id'', PStr ''https://hedwig.example/schema'')]"
       and msg = "\<lparr>schema = ''https://hedwig.example/schema#/schemas/no_such_type/1.0'',
                   data = PNone\<rparr>"
       and root_id = "''https://hedwig.example/schema''"]
  by (simp add: schema_root_def startswith_def)

end
